theory Spec2Isabelle
  imports Main "HOL-Library.Sublist" "HOL-Library.AList"
begin

section \<open>Python string primitives used by the response sectionizer\<close>

text \<open>
  Strings are lists of 8-bit characters. The model is exact on ASCII text: \<open>isspace\<close>
  holds of the ASCII characters that Python's \<open>str.strip()\<close> removes (codes 9 to 13 and
  28 to 32), and \<open>upper\<close> maps \<open>a\<close>..\<open>z\<close> to \<open>A\<close>..\<open>Z\<close> and leaves every other
  character alone.
\<close>

definition isspace :: "char \<Rightarrow> bool" where
  "isspace c = (let n = (of_char c :: nat) in (9 \<le> n \<and> n \<le> 13) \<or> (28 \<le> n \<and> n \<le> 32))"

definition upper_char :: "char \<Rightarrow> char" where
  "upper_char c = (let n = (of_char c :: nat) in if 97 \<le> n \<and> n \<le> 122 then char_of (n - 32) else c)"

text \<open>\<open>s.upper()\<close>\<close>

definition upper :: "string \<Rightarrow> string" where
  "upper s = map upper_char s"

text \<open>\<open>s.strip()\<close>: whitespace is dropped from both ends.\<close>

definition strip :: "string \<Rightarrow> string" where
  "strip s = rev (dropWhile isspace (rev (dropWhile isspace s)))"

text \<open>\<open>s.startswith(p)\<close> and \<open>s.endswith(p)\<close>\<close>

definition startswith :: "string \<Rightarrow> string \<Rightarrow> bool" where
  "startswith s p = prefix p s"

definition endswith :: "string \<Rightarrow> string \<Rightarrow> bool" where
  "endswith s p = suffix p s"

text \<open>\<open>sub in s\<close>: \<open>sub\<close> occurs in \<open>s\<close> as a contiguous substring.\<close>

fun contains :: "string \<Rightarrow> string \<Rightarrow> bool" where
  "contains sub [] = (sub = [])"
| "contains sub (c # cs) = (prefix sub (c # cs) \<or> contains sub cs)"

text \<open>
  \<open>s.replace(old, '')\<close>: every occurrence of \<open>old\<close> is deleted, scanning from the left
  and resuming after each deleted occurrence. With an empty \<open>old\<close> the string is unchanged.
\<close>

function remove_all :: "string \<Rightarrow> string \<Rightarrow> string" where
  "remove_all old s =
     (if s = [] then []
      else if old \<noteq> [] \<and> prefix old s then remove_all old (drop (length old) s)
      else hd s # remove_all old (tl s))"
  by pat_completeness auto
termination
  by (relation "measure (\<lambda>(old, s). length s)") auto

declare remove_all.simps [simp del]

text \<open>
  \<open>response.split('**')\<close>: the string is cut at every occurrence of the two-character
  marker, found from the left; the result always has at least one fragment.
\<close>

fun split_marker :: "string \<Rightarrow> string list" where
  "split_marker [] = [[]]"
| "split_marker [c] = [[c]]"
| "split_marker (c # d # cs) =
     (if c = CHR ''*'' \<and> d = CHR ''*'' then [] # split_marker cs
      else (case split_marker (d # cs) of
              p # ps \<Rightarrow> (c # p) # ps
            | [] \<Rightarrow> [[c]]))"

text \<open>\<open>s[1:-1]\<close>: the slice from index 1 up to, not including, the last index.\<close>

definition slice_1_m1 :: "string \<Rightarrow> string" where
  "slice_1_m1 s = take (length s - 1 - 1) (drop 1 s)"

section \<open>The sections dictionary\<close>

text \<open>
  A Python \<open>dict\<close> keeps its keys in insertion order, and assigning to a key that is
  present keeps the key's position: an association list with \<open>AList.update\<close>.
  Reading a key that is absent raises \<open>KeyError\<close>.
\<close>

datatype error = KeyError string

type_synonym sections = "(string \<times> string) list"

definition getitem :: "sections \<Rightarrow> string \<Rightarrow> error + string" where
  "getitem d k = (case map_of d k of None \<Rightarrow> Inl (KeyError k) | Some v \<Rightarrow> Inr v)"

definition setitem :: "sections \<Rightarrow> string \<Rightarrow> string \<Rightarrow> sections" where
  "setitem d k v = AList.update k v d"

section \<open>\<open>_parse_response\<close>\<close>

definition headers :: "string list" where
  "headers = [''INNER REFLECTION:'', ''DREAM INTERPRETATION:'', ''MINDSET INSIGHT:'', ''DAY STRATEGY:'']"

text \<open>\<open>any(header in part.upper() for header in [...])\<close>\<close>

definition has_header :: "string \<Rightarrow> bool" where
  "has_header part = list_ex (\<lambda>header. contains header (upper part)) headers"

definition initial_sections :: sections where
  "initial_sections =
     [(''reflection'', ''''), (''dream_interpretation'', ''''),
      (''mindset_insight'', ''''), (''strategy'', '''')]"

text \<open>
  One iteration of the loop over \<open>parts\<close>. The state is \<open>current_section\<close> (\<open>None\<close> or
  a key) and the dictionary. The branches are the source's \<open>if\<close>/\<open>elif\<close> chain, in its
  order; a fragment that takes no branch leaves the state as it is.
\<close>

definition scan_part :: "string option \<times> sections \<Rightarrow> string \<Rightarrow> error + (string option \<times> sections)" where
  "scan_part st part0 =
     (let current_section = fst st; sections = snd st; part = strip part0 in
      if contains ''INNER REFLECTION:'' (upper part) then
        (let content = strip (remove_all ''Inner Reflection:'' (remove_all ''INNER REFLECTION:'' part))
         in Inr (Some ''reflection'', setitem sections ''reflection'' content))
      else if contains ''DREAM INTERPRETATION:'' (upper part) then
        (let content = strip (remove_all ''Dream Interpretation:'' (remove_all ''DREAM INTERPRETATION:'' part))
         in Inr (Some ''dream_interpretation'', setitem sections ''dream_interpretation'' content))
      else if contains ''MINDSET INSIGHT:'' (upper part) then
        (let content = strip (remove_all ''Mindset Insight:'' (remove_all ''MINDSET INSIGHT:'' part))
         in Inr (Some ''mindset_insight'', setitem sections ''mindset_insight'' content))
      else if contains ''DAY STRATEGY:'' (upper part) then
        (let content = strip (remove_all ''Day Strategy:'' (remove_all ''DAY STRATEGY:'' part))
         in Inr (Some ''strategy'', setitem sections ''strategy'' content))
      else
        (case current_section of
           None \<Rightarrow> Inr st
         | Some key \<Rightarrow>
             if key \<noteq> [] \<and> part \<noteq> [] \<and> \<not> has_header part then
               (case getitem sections key of
                  Inl e \<Rightarrow> Inl e
                | Inr v \<Rightarrow>
                    if v \<noteq> [] then Inr (current_section, setitem sections key (v @ '' '' @ part))
                    else Inr (current_section, setitem sections key part))
             else Inr st))"

text \<open>The loop \<open>for part in parts\<close>; an exception ends it.\<close>

fun scan_parts :: "string option \<times> sections \<Rightarrow> string list \<Rightarrow> error + (string option \<times> sections)" where
  "scan_parts st [] = Inr st"
| "scan_parts st (part # parts) =
     (case scan_part st part of Inl e \<Rightarrow> Inl e | Inr st' \<Rightarrow> scan_parts st' parts)"

text \<open>The body of the clean-up loop, for one key.\<close>

definition cleanup_key :: "sections \<Rightarrow> string \<Rightarrow> error + sections" where
  "cleanup_key sections key =
     (case getitem sections key of
        Inl e \<Rightarrow> Inl e
      | Inr v \<Rightarrow>
          (let sections1 = setitem sections key (strip v) in
           case getitem sections1 key of
             Inl e \<Rightarrow> Inl e
           | Inr v1 \<Rightarrow>
               if startswith v1 ''['' \<and> endswith v1 '']''
               then Inr (setitem sections1 key (strip (slice_1_m1 v1)))
               else Inr sections1))"

text \<open>The loop \<open>for key in sections\<close>, over the keys in dictionary order.\<close>

fun cleanup :: "sections \<Rightarrow> string list \<Rightarrow> error + sections" where
  "cleanup sections [] = Inr sections"
| "cleanup sections (key # keys) =
     (case cleanup_key sections key of Inl e \<Rightarrow> Inl e | Inr sections' \<Rightarrow> cleanup sections' keys)"

definition parse_response :: "string \<Rightarrow> error + sections" where
  "parse_response response =
     (let parts = split_marker response in
      case scan_parts (None, initial_sections) parts of
        Inl e \<Rightarrow> Inl e
      | Inr st \<Rightarrow> cleanup (snd st) (map fst (snd st)))"

section \<open>Notions used to state the properties\<close>

text \<open>
  The label tested by each branch of the chain, the title-case spelling the branch also
  deletes, and the key the branch assigns to, in the order of the branches.
\<close>

definition header_table :: "(string \<times> string \<times> string) list" where
  "header_table =
     [(''INNER REFLECTION:'', ''Inner Reflection:'', ''reflection''),
      (''DREAM INTERPRETATION:'', ''Dream Interpretation:'', ''dream_interpretation''),
      (''MINDSET INSIGHT:'', ''Mindset Insight:'', ''mindset_insight''),
      (''DAY STRATEGY:'', ''Day Strategy:'', ''strategy'')]"

text \<open>The first entry, in test order, whose label occurs in the upper-cased fragment.\<close>

definition match_header :: "string \<Rightarrow> (string \<times> string \<times> string) option" where
  "match_header part = find (\<lambda>(h, t, k). contains h (upper part)) header_table"

definition section_keys :: "string list" where
  "section_keys = [''reflection'', ''dream_interpretation'', ''mindset_insight'', ''strategy'']"

definition mk_sections :: "string \<Rightarrow> string \<Rightarrow> string \<Rightarrow> string \<Rightarrow> sections" where
  "mk_sections a b c d =
     [(''reflection'', a), (''dream_interpretation'', b), (''mindset_insight'', c), (''strategy'', d)]"

text \<open>What the clean-up loop makes of one accumulated value.\<close>

definition clean_value :: "string \<Rightarrow> string" where
  "clean_value v =
     (let t = strip v in
      if startswith t ''['' \<and> endswith t '']'' then strip (slice_1_m1 t) else t)"

text \<open>The loop and the clean-up, on a list of fragments.\<close>

definition sectionize :: "string list \<Rightarrow> error + sections" where
  "sectionize parts =
     (case scan_parts (None, initial_sections) parts of
        Inl e \<Rightarrow> Inl e
      | Inr st \<Rightarrow> cleanup (snd st) (map fst (snd st)))"



text \<open>
  Inputs built from sections. A block is a key and the text of its section; it is written
  as the key's upper-case label between two markers, followed by the text. A text is
  \<open>plain\<close> when none of its fragments is taken for a header, and a list of blocks is
  \<open>well_formed\<close> when its keys are section keys, its texts are plain and no text but
  the last ends in an asterisk (which would join the marker that follows it).
\<close>

definition label_of :: "string \<Rightarrow> string" where
  "label_of k = (case find (\<lambda>(h, t, k'). k' = k) header_table of Some (h, t, k') \<Rightarrow> h | None \<Rightarrow> [])"








text \<open>
  The invariant of the loop: the dictionary holds the four keys and the current section,
  when set, is one of them.
\<close>

definition shaped :: "string option \<times> sections \<Rightarrow> bool" where
  "shaped st = ((\<exists>a b c d. snd st = mk_sections a b c d) \<and>
                (\<forall>k. fst st = Some k \<longrightarrow> k \<in> set section_keys))"

section \<open>Auxiliary facts\<close>

subsection \<open>Strings\<close>

lemma contains_sublist: "contains sub s = sublist sub s"
  by (induction s) (simp_all add: sublist_Cons_right)

lemma isspace_upper_char [simp]: "isspace (upper_char c) = isspace c"
  by (auto simp: isspace_def upper_char_def Let_def)

lemma upper_strip: "upper (strip s) = strip (upper s)"
  by (simp add: upper_def strip_def dropWhile_map rev_map comp_def)

lemma contains_dropWhile:
  assumes "h \<noteq> []" "\<not> P (hd h)"
  shows "contains h (dropWhile P s) = contains h s"
  using assms by (induction s) (auto simp: prefix_Cons neq_Nil_conv)

lemma contains_rev: "contains (rev h) (rev s) = contains h s"
  by (simp add: contains_sublist)

lemma contains_strip:
  assumes "h \<noteq> []" "\<not> isspace (hd h)" "\<not> isspace (last h)"
  shows "contains h (strip s) = contains h s"
proof -
  have "contains h (strip s) = contains (rev h) (dropWhile isspace (rev (dropWhile isspace s)))"
    unfolding strip_def by (metis contains_rev rev_rev_ident)
  also have "\<dots> = contains (rev h) (rev (dropWhile isspace s))"
    using assms by (intro contains_dropWhile) (simp_all add: hd_rev)
  also have "\<dots> = contains h (dropWhile isspace s)"
    by (rule contains_rev)
  also have "\<dots> = contains h s"
    using assms by (intro contains_dropWhile)
  finally show ?thesis .
qed

lemma match_header_None: "match_header part = None \<longleftrightarrow> \<not> has_header part"
  by (auto simp: match_header_def header_table_def has_header_def headers_def)

lemma match_header_strip: "match_header (strip part) = match_header part"
  by (simp add: match_header_def header_table_def upper_strip contains_strip isspace_def)

lemma dropWhile_id: "s = [] \<or> \<not> P (hd s) \<Longrightarrow> dropWhile P s = s"
  by (cases s) auto

lemma strip_id:
  assumes "s = [] \<or> (\<not> isspace (hd s) \<and> \<not> isspace (last s))"
  shows "strip s = s"
proof (cases "s = []")
  case True
  then show ?thesis by (simp add: strip_def)
next
  case False
  with assms have h: "\<not> isspace (hd s)" and l: "\<not> isspace (last s)" by auto
  have "dropWhile isspace s = s" using h by (simp add: dropWhile_id)
  moreover have "dropWhile isspace (rev s) = rev s"
    using False l by (intro dropWhile_id) (simp add: hd_rev)
  ultimately show ?thesis by (simp add: strip_def)
qed

lemma last_dropWhile: "dropWhile P xs \<noteq> [] \<Longrightarrow> last (dropWhile P xs) = last xs"
  by (metis last_appendR takeWhile_dropWhile_id)

lemma strip_ends:
  "strip s = [] \<or> (\<not> isspace (hd (strip s)) \<and> \<not> isspace (last (strip s)))"
proof (cases "strip s = []")
  case True
  then show ?thesis by simp
next
  case False
  define u where "u = dropWhile isspace s"
  define t where "t = dropWhile isspace (rev u)"
  have st: "strip s = rev t" by (simp add: strip_def t_def u_def)
  with False have tne: "t \<noteq> []" by simp
  then have une: "u \<noteq> []" by (auto simp: t_def)
  have "\<not> isspace (hd t)" using tne unfolding t_def by (rule hd_dropWhile)
  then have l: "\<not> isspace (last (strip s))" using tne by (simp add: st last_rev)
  have "last t = last (rev u)" using tne unfolding t_def by (rule last_dropWhile)
  also have "\<dots> = hd u" using une by (simp add: last_rev)
  finally have "hd (strip s) = hd u" using tne by (simp add: st hd_rev)
  moreover have "\<not> isspace (hd u)" using une unfolding u_def by (rule hd_dropWhile)
  ultimately show ?thesis using l by simp
qed

lemma strip_strip [simp]: "strip (strip s) = strip s"
  by (rule strip_id) (rule strip_ends)

lemma strip_Nil [simp]: "strip [] = []"
  by (simp add: strip_def)





subsection \<open>The dictionary with its four keys\<close>

lemma getitem_mk [simp]:
  "getitem (mk_sections a b c d) ''reflection'' = Inr a"
  "getitem (mk_sections a b c d) ''dream_interpretation'' = Inr b"
  "getitem (mk_sections a b c d) ''mindset_insight'' = Inr c"
  "getitem (mk_sections a b c d) ''strategy'' = Inr d"
  by (simp_all add: getitem_def mk_sections_def)

lemma setitem_mk [simp]:
  "setitem (mk_sections a b c d) ''reflection'' x = mk_sections x b c d"
  "setitem (mk_sections a b c d) ''dream_interpretation'' x = mk_sections a x c d"
  "setitem (mk_sections a b c d) ''mindset_insight'' x = mk_sections a b x d"
  "setitem (mk_sections a b c d) ''strategy'' x = mk_sections a b c x"
  by (simp_all add: setitem_def mk_sections_def)

lemma cleanup_key_mk [simp]:
  "cleanup_key (mk_sections a b c d) ''reflection'' = Inr (mk_sections (clean_value a) b c d)"
  "cleanup_key (mk_sections a b c d) ''dream_interpretation'' = Inr (mk_sections a (clean_value b) c d)"
  "cleanup_key (mk_sections a b c d) ''mindset_insight'' = Inr (mk_sections a b (clean_value c) d)"
  "cleanup_key (mk_sections a b c d) ''strategy'' = Inr (mk_sections a b c (clean_value d))"
  by (simp_all add: cleanup_key_def clean_value_def Let_def)

lemma map_fst_mk: "map fst (mk_sections a b c d) = [''reflection'', ''dream_interpretation'', ''mindset_insight'', ''strategy'']"
  by (simp add: mk_sections_def)

lemma cleanup_mk:
  "cleanup (mk_sections a b c d) (map fst (mk_sections a b c d)) =
     Inr (mk_sections (clean_value a) (clean_value b) (clean_value c) (clean_value d))"
  by (simp add: map_fst_mk)

subsection \<open>One fragment\<close>

lemma scan_part_header:
  assumes "match_header part = Some (h, t, k)"
  shows "scan_part (cur, secs) part =
           Inr (Some k, setitem secs k (strip (remove_all t (remove_all h (strip part)))))"
proof -
  from assms have "match_header (strip part) = Some (h, t, k)" by (simp add: match_header_strip)
  then show ?thesis
    by (auto simp: match_header_def header_table_def scan_part_def Let_def split: if_splits)
qed

lemma scan_part_plain:
  assumes "match_header part = None"
  shows "scan_part (cur, secs) part =
           (case cur of None \<Rightarrow> Inr (cur, secs)
            | Some key \<Rightarrow>
               if key \<noteq> [] \<and> strip part \<noteq> [] then
                 (case getitem secs key of Inl e \<Rightarrow> Inl e
                  | Inr v \<Rightarrow> if v \<noteq> [] then Inr (cur, setitem secs key (v @ '' '' @ strip part))
                             else Inr (cur, setitem secs key (strip part)))
               else Inr (cur, secs))"
proof -
  from assms have "match_header (strip part) = None" by (simp add: match_header_strip)
  then show ?thesis
    by (auto simp: match_header_def header_table_def scan_part_def Let_def headers_def has_header_def
        split: if_splits option.splits)
qed


subsection \<open>Fragments and blocks\<close>

lemma split_marker_nonempty [simp]: "split_marker s \<noteq> []"
  by (induction s rule: split_marker.induct) (auto split: list.splits)










lemma section_keys_cases:
  assumes "k \<in> set section_keys"
  obtains "k = ''reflection''" | "k = ''dream_interpretation''" | "k = ''mindset_insight''" | "k = ''strategy''"
  using assms by (auto simp: section_keys_def)

lemma label_of_simps [simp]:
  "label_of ''reflection'' = ''INNER REFLECTION:''"
  "label_of ''dream_interpretation'' = ''DREAM INTERPRETATION:''"
  "label_of ''mindset_insight'' = ''MINDSET INSIGHT:''"
  "label_of ''strategy'' = ''DAY STRATEGY:''"
  by (simp_all add: label_of_def header_table_def)










subsection \<open>The loop keeps the four keys\<close>

lemma has_header_strip: "has_header (strip part) = has_header part"
  by (metis match_header_None match_header_strip)

lemma parse_response_sectionize: "parse_response response = sectionize (split_marker response)"
  by (simp add: parse_response_def sectionize_def)

lemma match_header_key: "match_header part = Some (h, t, k) \<Longrightarrow> k \<in> set section_keys"
  by (auto simp: match_header_def header_table_def section_keys_def split: if_splits)

lemma setitem_mk_ex:
  "k \<in> set section_keys \<Longrightarrow> \<exists>a' b' c' d'. setitem (mk_sections a b c d) k x = mk_sections a' b' c' d'"
  by (erule section_keys_cases) auto

lemma getitem_mk_ex:
  "k \<in> set section_keys \<Longrightarrow> \<exists>v. getitem (mk_sections a b c d) k = Inr v"
  by (erule section_keys_cases) simp_all

lemma scan_part_shaped:
  assumes "shaped st"
  shows "\<exists>st'. scan_part st part = Inr st' \<and> shaped st'"
proof -
  obtain cur a b c d where st: "st = (cur, mk_sections a b c d)"
    and cur: "\<And>k. cur = Some k \<Longrightarrow> k \<in> set section_keys"
    using assms by (cases st) (auto simp: shaped_def)
  show ?thesis
  proof (cases "match_header part")
    case None
    show ?thesis
    proof (cases cur)
      case None
      with \<open>match_header part = None\<close> assms show ?thesis by (simp add: st scan_part_plain)
    next
      case (Some k)
      then have k: "k \<in> set section_keys" by (rule cur)
      obtain v where v: "getitem (mk_sections a b c d) k = Inr v" using getitem_mk_ex [OF k] by blast
      from setitem_mk_ex [OF k] have "shaped (cur, setitem (mk_sections a b c d) k x)" for x
        using k Some by (simp add: shaped_def)
      with None Some v assms show ?thesis
        by (simp add: st scan_part_plain)
    qed
  next
    case (Some e)
    obtain h t k where e: "e = (h, t, k)" by (cases e)
    with Some have k: "k \<in> set section_keys" by (auto dest: match_header_key)
    from setitem_mk_ex [OF k] have "shaped (Some k, setitem (mk_sections a b c d) k x)" for x
      using k by (simp add: shaped_def)
    with Some e show ?thesis by (simp add: st scan_part_header)
  qed
qed

lemma scan_parts_shaped:
  "shaped st \<Longrightarrow> \<exists>st'. scan_parts st parts = Inr st' \<and> shaped st'"
proof (induction parts arbitrary: st)
  case Nil
  then show ?case by simp
next
  case (Cons p ps)
  from scan_part_shaped [OF Cons.prems] obtain st1 where "scan_part st p = Inr st1" "shaped st1"
    by blast
  with Cons.IH [of st1] show ?case by simp
qed

lemma shaped_initial: "shaped (None, initial_sections)"
  by (auto simp: shaped_def initial_sections_def mk_sections_def)

lemma sectionize_scan:
  assumes "scan_parts (None, initial_sections) parts = Inr (cur, acc)"
  shows "\<exists>a b c d. acc = mk_sections a b c d \<and>
           sectionize parts = Inr (mk_sections (clean_value a) (clean_value b) (clean_value c) (clean_value d))"
proof -
  from scan_parts_shaped [OF shaped_initial, of parts] assms
  obtain a b c d where "acc = mk_sections a b c d" by (auto simp: shaped_def)
  with assms show ?thesis by (auto simp: sectionize_def cleanup_mk)
qed

lemma sectionize_total:
  "\<exists>a b c d. sectionize parts = Inr (mk_sections (clean_value a) (clean_value b) (clean_value c) (clean_value d))"
proof -
  from scan_parts_shaped [OF shaped_initial, of parts]
  obtain cur acc where "scan_parts (None, initial_sections) parts = Inr (cur, acc)" by auto
  from sectionize_scan [OF this] show ?thesis by blast
qed


subsection \<open>Texts without markers, distinct keys\<close>






section \<open>Properties of \<open>_parse_response\<close>\<close>

text \<open>
  C2: for every input string, the returned mapping has exactly the four keys
  \<open>reflection\<close>, \<open>dream_interpretation\<close>, \<open>mindset_insight\<close> and \<open>strategy\<close>
  (in this order, none missing, no other present), each with a string value.
\<close>

theorem parse_response_keys:
  "\<exists>secs. parse_response response = Inr secs \<and>
          map fst secs = [''reflection'', ''dream_interpretation'', ''mindset_insight'', ''strategy'']"
  using sectionize_total [of "split_marker response"]
  by (auto simp: parse_response_sectionize map_fst_mk)

text \<open>
  C3: for every input string, however malformed, \<open>_parse_response\<close> returns a
  dictionary: the \<open>KeyError\<close> branches of the model are never taken.
\<close>

theorem parse_response_never_raises: "\<exists>secs. parse_response response = Inr secs"
  using sectionize_total [of "split_marker response"]
  by (auto simp: parse_response_sectionize)









text \<open>
  C4: a header label written in lower case is recognised, but it is not removed from the
  fragment: only the upper-case and the title-case spellings are deleted. On
  \<open>**inner reflection:** Feeling calm.\<close> the label stays in the value.
\<close>

theorem lowercase_header_left_in_content:
  "parse_response ''**inner reflection:** Feeling calm.'' =
     Inr [(''reflection'', ''inner reflection: Feeling calm.''), (''dream_interpretation'', ''''),
          (''mindset_insight'', ''''), (''strategy'', '''')]"
  by code_simp









end
